theory Spec2Isabelle
  imports Main "HOL-Library.Multiset"
begin

section \<open>Data model of the Channels and Identities queries\<close>

text \<open>
  The embedding follows \<^verbatim>\<open>queries/channels-query.js\<close> and
  \<^verbatim>\<open>queries/identities-query.js\<close>. Names of the source are kept, without the leading
  underscore of private methods; the field \<^verbatim>\<open>id\<close> is written \<open>id'\<close>.
\<close>

text \<open>
  Modelled from the spec: the constants of \<^verbatim>\<open>SYNC_STATE\<close> are in a file that is not among
  the sources; the data model lists the states. The code tests NEW and SAVING only.
\<close>

datatype sync_state = NEW | SAVING | SYNCED | SYNCING | LOADING

record message =
  sentAt :: int

text \<open>
  The fields of a channel that the query code reads. Dates are compared with \<^verbatim>\<open>>=\<close>, that
  is by their time value, an integer. \<open>isSaved\<close> is the result of the method
  \<^verbatim>\<open>channel.isSaved()\<close>, whose class is outside these files. The array of an
  instance query holds the live channels themselves; a list of the model is the content of
  the array as the running handler reads it.
\<close>

record channel =
  id' :: string
  syncState :: sync_state
  createdAt :: int
  lastMessage :: "message option"
  isSaved :: bool

datatype data_type = InstanceDataType | ObjectDataType

subsection \<open>JavaScript array operations\<close>

text \<open>
  \<^verbatim>\<open>Array.prototype.splice(start, deleteCount, ...items)\<close>: a negative start counts from the
  end, a start beyond the end is the end, and no more elements are deleted than there are.
\<close>

definition splice :: "int \<Rightarrow> nat \<Rightarrow> 'a list \<Rightarrow> 'a list \<Rightarrow> 'a list" where
  "splice start deleteCount items arr =
     (let len = int (length arr);
          actualStart = nat (if start < 0 then max (len + start) 0 else min start len);
          actualDelete = min deleteCount (length arr - actualStart)
      in take actualStart arr @ items @ drop (actualStart + actualDelete) arr)"

text \<open>\<^verbatim>\<open>Array.prototype.slice(start, end)\<close> and \<^verbatim>\<open>slice(start)\<close>.\<close>

definition relIndex :: "int \<Rightarrow> 'a list \<Rightarrow> nat" where
  "relIndex i arr =
     (let len = int (length arr) in nat (if i < 0 then max (len + i) 0 else min i len))"

definition slice :: "int \<Rightarrow> int \<Rightarrow> 'a list \<Rightarrow> 'a list" where
  "slice start end' arr = drop (relIndex start arr) (take (relIndex end' arr) arr)"

definition sliceFrom :: "int \<Rightarrow> 'a list \<Rightarrow> 'a list" where
  "sliceFrom start arr = drop (relIndex start arr) arr"

section \<open>The insert index\<close>

text \<open>
  The loop of the \<^verbatim>\<open>created_at\<close> branch of \<^verbatim>\<open>_getInsertIndex\<close>; the list is the part of
  \<^verbatim>\<open>data\<close> from \<open>index\<close> on, and the result is the value of \<open>index\<close> after the loop.
\<close>

fun createdAtScan :: "channel \<Rightarrow> channel list \<Rightarrow> int \<Rightarrow> int" where
  "createdAtScan ch [] index = index"
| "createdAtScan ch (item # rest) index =
     (if syncState item = NEW \<or> syncState item = SAVING
      then createdAtScan ch rest (index + 1)
      else if createdAt ch \<ge> createdAt item then index
      else createdAtScan ch rest (index + 1))"

text \<open>
  The loop of the other branch; it returns \<open>index\<close> and \<open>oldIndex\<close> as they are after
  the loop.
\<close>

fun recencyScan :: "channel \<Rightarrow> int \<Rightarrow> channel list \<Rightarrow> int \<Rightarrow> int \<Rightarrow> int \<times> int" where
  "recencyScan ch d1 [] index oldIndex = (index, oldIndex)"
| "recencyScan ch d1 (item # rest) index oldIndex =
     (if id' item = id' ch then recencyScan ch d1 rest (index + 1) index
      else if syncState item = NEW \<or> syncState item = SAVING
      then recencyScan ch d1 rest (index + 1) oldIndex
      else
        (let d2 = (case lastMessage item of Some m \<Rightarrow> sentAt m | None \<Rightarrow> createdAt item)
         in if d1 \<ge> d2 then (index, oldIndex)
            else recencyScan ch d1 rest (index + 1) oldIndex))"

text \<open>
  \<^verbatim>\<open>_getInsertIndex(channel, data)\<close>. The sort field is the result of the call
  \<^verbatim>\<open>this._getSortField()\<close>.
\<close>

definition getInsertIndex :: "string \<Rightarrow> channel \<Rightarrow> channel list \<Rightarrow> int" where
  "getInsertIndex sortField ch data' =
     (if \<not> isSaved ch then 0
      else if sortField = ''created_at'' then createdAtScan ch data' 0
      else
        (let d1 = (case lastMessage ch of Some m \<Rightarrow> sentAt m | None \<Rightarrow> createdAt ch);
             (index, oldIndex) = recencyScan ch d1 data' 0 (- 1)
         in if oldIndex = - 1 \<or> oldIndex > index then index else index - 1))"

text \<open>
  \<^verbatim>\<open>_getSortField()\<close> of ChannelsQuery. A query whose sort field is another one belongs
  to a class that overrides the method; \<^verbatim>\<open>_getInsertIndex\<close> and \<^verbatim>\<open>_handleChangeEvent\<close> have
  branches for it.
\<close>

definition getSortField :: string where
  "getSortField = ''created_at''"

subsection \<open>The resolver in the words of the specification\<close>

text \<open>The position of the first element that satisfies \<open>P\<close>, or the length of the list.\<close>

definition firstIndex :: "('a \<Rightarrow> bool) \<Rightarrow> 'a list \<Rightarrow> nat" where
  "firstIndex P xs = length (takeWhile (\<lambda>x. \<not> P x) xs)"

definition unsynced :: "channel \<Rightarrow> bool" where
  "unsynced item = (syncState item = NEW \<or> syncState item = SAVING)"

definition derivedKey :: "channel \<Rightarrow> int" where
  "derivedKey item = (case lastMessage item of Some m \<Rightarrow> sentAt m | None \<Rightarrow> createdAt item)"

text \<open>The position of the last element that satisfies \<open>P\<close>, or \<open>-1\<close>.\<close>

fun lastPos :: "('a \<Rightarrow> bool) \<Rightarrow> 'a list \<Rightarrow> int" where
  "lastPos P [] = - 1"
| "lastPos P (x # xs) =
     (let r = lastPos P xs in if r \<noteq> - 1 then r + 1 else if P x then 0 else - 1)"

text \<open>Where the scan by creation time stops.\<close>

definition createdAtStop :: "channel \<Rightarrow> channel \<Rightarrow> bool" where
  "createdAtStop ch item = (\<not> unsynced item \<and> createdAt item \<le> createdAt ch)"

text \<open>Where the scan by recency stops: at another item, synced, whose key is not later.\<close>

definition recencyStop :: "channel \<Rightarrow> channel \<Rightarrow> bool" where
  "recencyStop ch item =
     (id' item \<noteq> id' ch \<and> \<not> unsynced item \<and> derivedKey item \<le> derivedKey ch)"

section \<open>The query and its handlers\<close>

subsection \<open>Events\<close>

text \<open>
  One entry of \<^verbatim>\<open>evt.changes\<close>. The code reads the old value of an \<^verbatim>\<open>id\<close> change only,
  an identifier.
\<close>

record change =
  property :: string
  oldValue :: string
  newValue :: string

text \<open>The event of \<^verbatim>\<open>channels:change\<close>.\<close>

record layer_event =
  target :: channel
  changes :: "change list"

text \<open>
  Modelled from the spec: \<^verbatim>\<open>getChangesFor\<close> and \<^verbatim>\<open>hasProperty\<close> belong to the
  event class, which is not among the files. A change event carries "a structured
  description of which named properties changed and their old/new values"; the two
  methods select the entries of a property name and test whether there is one.
\<close>

definition getChangesFor :: "string \<Rightarrow> layer_event \<Rightarrow> change list" where
  "getChangesFor name evt = filter (\<lambda>c. property c = name) (changes evt)"

text \<open>
  Modelled from the spec: \<^verbatim>\<open>hasProperty\<close>, of the same class, tests whether the event has
  a change of the property.
\<close>

definition hasProperty :: "string \<Rightarrow> layer_event \<Rightarrow> bool" where
  "hasProperty name evt = (filter (\<lambda>c. property c = name) (changes evt) \<noteq> [])"

text \<open>The argument of \<^verbatim>\<open>_triggerChange\<close>, by its \<^verbatim>\<open>type\<close>.\<close>

datatype query_change =
    Property channel "change list"
  | Move channel int int
  | Insert int channel
  | Remove int channel

text \<open>The options given to \<^verbatim>\<open>client.xhr\<close> and the calls of the database manager.\<close>

record xhr_options =
  telemetry :: string
  url :: string
  method' :: string
  sync :: bool

datatype db_call = LoadChannels string nat | LoadIdentities

subsection \<open>State\<close>

text \<open>
  The fields of the query that the methods read and write, and what they act on: the
  array objects (\<open>data\<close> refers to one of them; \<open>nextRef\<close> is the reference that the next
  array created will get), the events triggered, and the requests made, in order.
  \<open>sortField\<close> is what \<^verbatim>\<open>this._getSortField()\<close> returns for the query.
\<close>

record query =
  dataType :: data_type
  sortField :: string
  data :: nat
  totalSize :: int
  nextDBFromId :: string
  nextServerFromId :: string
  isFiring :: bool
  firingRequest :: string
  arrays :: "nat \<Rightarrow> channel list"
  nextRef :: nat
  triggered :: "query_change list"
  xhrCalls :: "xhr_options list"
  dbCalls :: "db_call list"

text \<open>The content of \<^verbatim>\<open>this.data\<close>.\<close>

definition items :: "query \<Rightarrow> channel list" where
  "items q = arrays q (data q)"

text \<open>A change of an array object in place, and \<^verbatim>\<open>this.data = \<close> a new array.\<close>

definition writeArray :: "nat \<Rightarrow> channel list \<Rightarrow> query \<Rightarrow> query" where
  "writeArray r xs q = q\<lparr>arrays := (arrays q)(r := xs)\<rparr>"

definition assignNewArray :: "channel list \<Rightarrow> query \<Rightarrow> query" where
  "assignNewArray xs q =
     q\<lparr>arrays := (arrays q)(nextRef q := xs), data := nextRef q, nextRef := Suc (nextRef q)\<rparr>"

subsection \<open>Methods of the base class\<close>

text \<open>
  Modelled from the spec: \<^verbatim>\<open>_getIndex\<close> is a method of the base class Query, which is
  not among the files. The spec locates an entity in \<open>items\<close> by its ID; the callers
  compare the result with \<open>-1\<close>.
\<close>

fun indexOfId :: "string \<Rightarrow> channel list \<Rightarrow> int \<Rightarrow> int" where
  "indexOfId i [] index = - 1"
| "indexOfId i (item # rest) index =
     (if id' item = i then index else indexOfId i rest (index + 1))"

text \<open>
  Modelled from the spec: \<^verbatim>\<open>_getIndex(id)\<close>, the index in \<^verbatim>\<open>this.data\<close> of the item with
  the ID, or \<open>-1\<close>.
\<close>

definition getIndex :: "string \<Rightarrow> query \<Rightarrow> int" where
  "getIndex i q = indexOfId i (items q) 0"

text \<open>
  Modelled from the spec: \<^verbatim>\<open>_getData\<close> and \<^verbatim>\<open>toObject\<close> are not among the files.
  The Data Projector returns the entity itself for the instance type and a detached
  copy of its fields for the object type.
\<close>

definition toObject :: "channel \<Rightarrow> channel" where
  "toObject ch = ch"

text \<open>
  Modelled from the spec: \<^verbatim>\<open>_getData(item)\<close>, the projection of an entity for the data type
  of the query.
\<close>

definition getData :: "data_type \<Rightarrow> channel \<Rightarrow> channel" where
  "getData dt item = (if dt = ObjectDataType then toObject item else item)"

text \<open>
  Modelled from the spec: \<^verbatim>\<open>_triggerChange\<close> is not among the files. Consumers are
  notified of the deltas in the order in which they are triggered.
\<close>

definition triggerChange :: "query_change \<Rightarrow> query \<Rightarrow> query" where
  "triggerChange e q = q\<lparr>triggered := triggered q @ [e]\<rparr>"

subsection \<open>Fetching\<close>

text \<open>A page size in a template literal: its decimal digits.\<close>

fun natToString :: "nat \<Rightarrow> string" where
  "natToString n =
     (if n < 10 then [''0123456789'' ! n]
      else natToString (n div 10) @ [''0123456789'' ! (n mod 10)])"

declare natToString.simps [simp del]

text \<open>
  \<^verbatim>\<open>_fetchData(pageSize)\<close> of ChannelsQuery. The callbacks of the database manager and of
  the request run later; the method itself asks the database and, unless the same request
  is firing, makes the request.
\<close>

definition ChannelsQuery_newRequest :: "nat \<Rightarrow> query \<Rightarrow> string" where
  "ChannelsQuery_newRequest pageSize q =
     ''channels?page_size='' @ natToString pageSize @
       (if nextServerFromId q \<noteq> [] then ''&from_id='' @ nextServerFromId q else [])"

definition ChannelsQuery_fetchData :: "nat \<Rightarrow> query \<Rightarrow> query" where
  "ChannelsQuery_fetchData pageSize q =
     (let q1 = q\<lparr>dbCalls := dbCalls q @ [LoadChannels (nextDBFromId q) pageSize]\<rparr>;
          newRequest = ChannelsQuery_newRequest pageSize q1
      in if newRequest \<noteq> firingRequest q1
         then
           (let q2 = q1\<lparr>isFiring := True\<rparr>;
                q3 = q2\<lparr>firingRequest := newRequest\<rparr>
            in q3\<lparr>xhrCalls := xhrCalls q3 @
                 [\<lparr>telemetry = ''channel_query_time'', url = firingRequest q3,
                   method' = ''GET'', sync = False\<rparr>]\<rparr>)
         else q1)"

text \<open>\<^verbatim>\<open>_fetchData(pageSize)\<close> of IdentitiesQuery.\<close>

definition IdentitiesQuery_newRequest :: "nat \<Rightarrow> query \<Rightarrow> string" where
  "IdentitiesQuery_newRequest pageSize q =
     ''identities?page_size='' @ natToString pageSize @
       (if nextServerFromId q \<noteq> [] then ''&from_id='' @ nextServerFromId q else [])"

definition IdentitiesQuery_fetchData :: "nat \<Rightarrow> query \<Rightarrow> query" where
  "IdentitiesQuery_fetchData pageSize q =
     (let q1 = (if nextDBFromId q = [] then q\<lparr>dbCalls := dbCalls q @ [LoadIdentities]\<rparr> else q);
          newRequest = IdentitiesQuery_newRequest pageSize q1
      in if newRequest \<noteq> firingRequest q1
         then
           (let q2 = q1\<lparr>isFiring := True\<rparr>;
                q3 = q2\<lparr>firingRequest := newRequest\<rparr>
            in q3\<lparr>xhrCalls := xhrCalls q3 @
                 [\<lparr>telemetry = ''identity_query_time'', url = newRequest,
                   method' = ''GET'', sync = False\<rparr>]\<rparr>)
         else q1)"

subsection \<open>Appending a result\<close>



subsection \<open>The change event\<close>

definition handleChangeEvent :: "layer_event \<Rightarrow> query \<Rightarrow> query" where
  "handleChangeEvent evt q =
     (let index0 = getIndex (id' (target evt)) q;
          index =
            (if dataType q = ObjectDataType
             then (let idChanges = getChangesFor ''id'' evt
                   in if idChanges \<noteq> [] then getIndex (oldValue (hd idChanges)) q else index0)
             else index0)
      in if index \<noteq> - 1
         then
           (let sf = sortField q;
                reorder = (hasProperty ''lastMessage'' evt \<and> sf = ''last_message'');
                (newIndex, q1) =
                  (if dataType q = ObjectDataType
                   then
                     (if \<not> reorder
                      then (None,
                            assignNewArray
                              (slice 0 index (items q) @ [toObject (target evt)] @
                               sliceFrom (index + 1) (items q)) q)
                      else
                        (let n = getInsertIndex sf (target evt) (items q);
                             qa = writeArray (data q) (splice index 1 [] (items q)) q;
                             qb = writeArray (data qa)
                                    (splice n 0 [getData (dataType qa) (target evt)] (items qa)) qa
                         in (Some n, assignNewArray (items qb @ []) qb)))
                   else if reorder
                   then
                     (let n = getInsertIndex sf (target evt) (items q)
                      in if n \<noteq> index
                         then
                           (let qa = writeArray (data q) (splice index 1 [] (items q)) q
                            in (Some n,
                                writeArray (data qa) (splice n 0 [target evt] (items qa)) qa))
                         else (Some n, q))
                   else (None, q));
                q2 = triggerChange
                       (Property (getData (dataType q1) (target evt)) (changes evt)) q1
            in if reorder \<and> newIndex \<noteq> Some index
               then triggerChange
                      (Move (getData (dataType q2) (target evt)) index (the newIndex)) q2
               else q2)
         else q)"

subsection \<open>The add event\<close>

text \<open>
  One round of the \<^verbatim>\<open>forEach\<close> of \<^verbatim>\<open>_handleAddEvent\<close>; \<open>dataRef\<close> is the constant
  \<^verbatim>\<open>data\<close>, the array that \<^verbatim>\<open>this.data\<close> referred to before the loop.
\<close>

definition addChannel :: "nat \<Rightarrow> channel \<Rightarrow> query \<Rightarrow> query" where
  "addChannel dataRef ch q =
     (let newIndex = getInsertIndex (sortField q) ch (arrays q dataRef);
          q1 = writeArray dataRef
                 (splice newIndex 0 [getData (dataType q) ch] (arrays q dataRef)) q;
          q2 = (if dataType q1 = ObjectDataType
                then assignNewArray ([] @ arrays q1 dataRef) q1 else q1);
          q3 = q2\<lparr>totalSize := totalSize q2 + 1\<rparr>;
          item = getData (dataType q3) ch
      in triggerChange (Insert newIndex item) q3)"

definition handleAddEvent :: "channel list \<Rightarrow> query \<Rightarrow> query" where
  "handleAddEvent evt q =
     (let list' = filter (\<lambda>ch. getIndex (id' ch) q = - 1) evt
      in if list' \<noteq> []
         then (let dataRef = data q in fold (addChannel dataRef) list' q)
         else q)"

subsection \<open>The remove event\<close>

text \<open>
  One round of the first \<^verbatim>\<open>forEach\<close> of \<^verbatim>\<open>_handleRemoveEvent\<close>, on the query and the
  array \<^verbatim>\<open>removed\<close>. \<^verbatim>\<open>_updateNextFromId\<close> is a method of the base class, not among the
  files: it is the parameter \<open>upd\<close>.
\<close>

definition removeChannel ::
  "(int \<Rightarrow> query \<Rightarrow> string) \<Rightarrow> channel \<Rightarrow> query \<times> (channel \<times> int) list
     \<Rightarrow> query \<times> (channel \<times> int) list" where
  "removeChannel upd ch s =
     (let q = fst s; removed = snd s; index = getIndex (id' ch) q
      in if index \<noteq> - 1
         then
           (let q1 = (if id' ch = nextDBFromId q
                      then q\<lparr>nextDBFromId := upd index q\<rparr> else q);
                q2 = (if id' ch = nextServerFromId q1
                      then q1\<lparr>nextServerFromId := upd index q1\<rparr> else q1);
                removed' = removed @ [(ch, index)];
                q3 = (if dataType q2 = ObjectDataType
                      then assignNewArray
                             (slice 0 index (items q2) @ sliceFrom (index + 1) (items q2)) q2
                      else writeArray (data q2) (splice index 1 [] (items q2)) q2)
            in (q3, removed'))
         else (q, removed))"

definition handleRemoveEvent ::
  "(int \<Rightarrow> query \<Rightarrow> string) \<Rightarrow> channel list \<Rightarrow> query \<Rightarrow> query" where
  "handleRemoveEvent upd evt q =
     (let (q1, removed) = fold (removeChannel upd) evt (q, []);
          q2 = q1\<lparr>totalSize := totalSize q1 - int (length removed)\<rparr>
      in fold (\<lambda>removedObj. triggerChange
                 (Remove (snd removedObj) (getData (dataType q2) (fst removedObj))))
           removed q2)"

subsection \<open>The handlers in the words of the specification\<close>

text \<open>Splicing one element in at a position.\<close>

definition insertAt :: "nat \<Rightarrow> 'a \<Rightarrow> 'a list \<Rightarrow> 'a list" where
  "insertAt k x xs = take k xs @ x # drop k xs"

text \<open>
  The add event on the entities that are left after filtering: for each, in order, compute
  the insertion index, splice the projected entity in, and emit an insert delta with the
  index and the target. The result is the array and the deltas.
\<close>

fun insertAll ::
  "string \<Rightarrow> data_type \<Rightarrow> channel list \<Rightarrow> channel list \<Rightarrow> channel list \<times> query_change list" where
  "insertAll sf dt [] xs = (xs, [])"
| "insertAll sf dt (ch # rest) xs =
     (let i = getInsertIndex sf ch xs;
          r = insertAll sf dt rest (insertAt (nat i) (getData dt ch) xs)
      in (fst r, Insert i (getData dt ch) # snd r))"

text \<open>
  The ID by which the change event locates its target: the target's ID, but for the object
  type and an event with an \<^verbatim>\<open>id\<close> change, the old value of that change.
\<close>

definition lookupId :: "layer_event \<Rightarrow> query \<Rightarrow> string" where
  "lookupId evt q =
     (if dataType q = ObjectDataType \<and> getChangesFor ''id'' evt \<noteq> []
      then oldValue (hd (getChangesFor ''id'' evt))
      else id' (target evt))"

subsection \<open>Example values\<close>

text \<open>A channel of the examples is saved unless its state is NEW or SAVING.\<close>

definition mk :: "string \<Rightarrow> sync_state \<Rightarrow> int \<Rightarrow> int option \<Rightarrow> channel" where
  "mk i s c m =
     \<lparr>id' = i, syncState = s, createdAt = c,
      lastMessage = map_option (\<lambda>t. \<lparr>sentAt = t\<rparr>) m,
      isSaved = (s \<noteq> NEW \<and> s \<noteq> SAVING)\<rparr>"

definition newQuery :: "data_type \<Rightarrow> string \<Rightarrow> channel list \<Rightarrow> query" where
  "newQuery dt sf xs =
     \<lparr>dataType = dt, sortField = sf, data = 0, totalSize = int (length xs),
      nextDBFromId = [], nextServerFromId = [], isFiring = False, firingRequest = [],
      arrays = (\<lambda>r. [])(0 := xs), nextRef = 1, triggered = [], xhrCalls = [],
      dbCalls = []\<rparr>"

section \<open>The insert index: properties\<close>

lemma firstIndex_le: "firstIndex P xs \<le> length xs"
  by (simp add: firstIndex_def length_takeWhile_le)

lemma firstIndex_before: "j < firstIndex P xs \<Longrightarrow> \<not> P (xs ! j)"
  unfolding firstIndex_def
  by (metis (mono_tags, lifting) nth_mem set_takeWhileD takeWhile_nth)

lemma firstIndex_at: "firstIndex P xs < length xs \<Longrightarrow> P (xs ! firstIndex P xs)"
  unfolding firstIndex_def using nth_length_takeWhile by blast

lemma firstIndex_Nil: "firstIndex P [] = 0"
  by (simp add: firstIndex_def)

lemma firstIndex_Cons:
  "firstIndex P (x # xs) = (if P x then 0 else Suc (firstIndex P xs))"
  by (simp add: firstIndex_def)

lemma createdAtScan_firstIndex:
  "createdAtScan ch xs index = index + int (firstIndex (createdAtStop ch) xs)"
  by (induction xs arbitrary: index)
     (auto simp: firstIndex_Nil firstIndex_Cons createdAtStop_def unsynced_def)

lemma lastPos_ge: "- 1 \<le> lastPos P xs"
  by (induction xs) (auto simp: Let_def)

lemma lastPos_lt: "lastPos P xs < int (length xs)"
  by (induction xs) (auto simp: Let_def)

lemma lastPos_none: "lastPos P xs = - 1 \<longleftrightarrow> (\<forall>x \<in> set xs. \<not> P x)"
proof (induction xs)
  case Nil
  then show ?case by simp
next
  case (Cons x xs)
  have "lastPos P xs + 1 \<noteq> - 1" using lastPos_ge [of P xs] by linarith
  with Cons show ?case by (auto simp: Let_def)
qed

lemma lastPos_at: "lastPos P xs \<noteq> - 1 \<Longrightarrow> P (xs ! nat (lastPos P xs))"
proof (induction xs)
  case Nil
  then show ?case by simp
next
  case (Cons x xs)
  show ?case
  proof (cases "lastPos P xs = - 1")
    case True
    with Cons.prems show ?thesis by (auto simp: Let_def split: if_splits)
  next
    case False
    with lastPos_ge [of P xs] have "0 \<le> lastPos P xs" by linarith
    with False Cons.IH show ?thesis by (simp add: Let_def nat_add_distrib)
  qed
qed

lemma lastPos_after:
  "int j > lastPos P xs \<Longrightarrow> j < length xs \<Longrightarrow> \<not> P (xs ! j)"
proof (induction xs arbitrary: j)
  case Nil
  then show ?case by simp
next
  case (Cons x xs)
  show ?case
  proof (cases j)
    case 0
    with Cons.prems lastPos_ge [of P xs] show ?thesis
      by (auto simp: Let_def split: if_splits)
  next
    case (Suc k)
    with Cons.prems have "int k > lastPos P xs" "k < length xs"
      by (auto simp: Let_def split: if_splits)
    with Cons.IH Suc show ?thesis by simp
  qed
qed

lemma recencyScan_spec:
  "recencyScan ch (derivedKey ch) xs index oldIndex =
     (index + int (firstIndex (recencyStop ch) xs),
      (let r = lastPos (\<lambda>x. id' x = id' ch) (take (firstIndex (recencyStop ch) xs) xs)
       in if r = - 1 then oldIndex else index + r))"
proof (induction xs arbitrary: index oldIndex)
  case Nil
  then show ?case by (simp add: firstIndex_Nil)
next
  case (Cons item rest)
  let ?k = "firstIndex (recencyStop ch) rest"
  let ?r = "lastPos (\<lambda>x. id' x = id' ch) (take ?k rest)"
  show ?case
  proof (cases "recencyStop ch item")
    case True
    then show ?thesis
      by (simp add: firstIndex_Cons) (simp add: recencyStop_def unsynced_def derivedKey_def)
  next
    case False
    then have "recencyScan ch (derivedKey ch) (item # rest) index oldIndex =
        recencyScan ch (derivedKey ch) rest (index + 1)
          (if id' item = id' ch then index else oldIndex)"
      by (auto simp: recencyStop_def unsynced_def derivedKey_def)
    also have "\<dots> = (index + 1 + int ?k,
        if ?r = - 1 then (if id' item = id' ch then index else oldIndex) else index + 1 + ?r)"
      by (simp add: Cons.IH Let_def)
    finally show ?thesis using False lastPos_ge [of "\<lambda>x. id' x = id' ch" "take ?k rest"]
      by (simp add: firstIndex_Cons Let_def)
  qed
qed

lemma lastPos_take_lt: "lastPos P (take k xs) < int k"
proof -
  have "lastPos P (take k xs) < int (length (take k xs))" by (rule lastPos_lt)
  then show ?thesis by simp
qed

lemma getInsertIndex_recency_eq:
  assumes "isSaved ch" "sf \<noteq> ''created_at''"
  shows "getInsertIndex sf ch xs =
     (if lastPos (\<lambda>x. id' x = id' ch) (take (firstIndex (recencyStop ch) xs) xs) = - 1
      then int (firstIndex (recencyStop ch) xs)
      else int (firstIndex (recencyStop ch) xs) - 1)"
proof -
  let ?k = "firstIndex (recencyStop ch) xs"
  let ?r = "lastPos (\<lambda>x. id' x = id' ch) (take ?k xs)"
  have scan: "recencyScan ch (derivedKey ch) xs 0 (- 1) = (int ?k, ?r)"
    by (simp add: recencyScan_spec Let_def)
  have "?r < int ?k" by (rule lastPos_take_lt)
  with assms scan show ?thesis
    by (simp add: getInsertIndex_def derivedKey_def [symmetric])
qed

lemma getInsertIndex_range:
  "0 \<le> getInsertIndex sf ch xs \<and> getInsertIndex sf ch xs \<le> int (length xs)"
proof (cases "isSaved ch")
  case False
  then show ?thesis by (simp add: getInsertIndex_def)
next
  case saved: True
  show ?thesis
  proof (cases "sf = ''created_at''")
    case True
    with saved firstIndex_le [of "createdAtStop ch" xs] show ?thesis
      by (simp add: getInsertIndex_def createdAtScan_firstIndex)
  next
    case False
    let ?k = "firstIndex (recencyStop ch) xs"
    let ?r = "lastPos (\<lambda>x. id' x = id' ch) (take ?k xs)"
    have "?r < int ?k" by (rule lastPos_take_lt)
    moreover have "- 1 \<le> ?r" by (rule lastPos_ge)
    moreover have "?k \<le> length xs" by (rule firstIndex_le)
    ultimately show ?thesis
      using getInsertIndex_recency_eq [OF saved False, of xs] by auto
  qed
qed

text \<open>
  C6. A channel that is not saved gets the insert index 0, whatever the sort field and the
  array are.
\<close>

theorem getInsertIndex_unsaved: "\<not> isSaved ch \<Longrightarrow> getInsertIndex sf ch data' = 0"
  by (simp add: getInsertIndex_def)

theorem getInsertIndex_unsaved_witness:
  "\<not> isSaved (mk ''c'' NEW 50 None) \<and>
   getInsertIndex ''last_message'' (mk ''c'' NEW 50 None)
     [mk ''a'' SYNCED 70 None, mk ''b'' SYNCED 20 None] = 0"
  using getInsertIndex_unsaved
    [of "mk ''c'' NEW 50 None" "''last_message''"
        "[mk ''a'' SYNCED 70 None, mk ''b'' SYNCED 20 None]"]
  by (simp add: mk_def)

text \<open>
  C2. Sorting by creation time, the insert index of a saved channel is the position of the
  first item that is neither NEW nor SAVING and was created no later than the channel, or
  the length of the array when there is none: every item before that position is NEW or
  SAVING or was created later. It is never 0 when the first item is NEW or SAVING, and it
  is 1 when the first item is NEW and nothing, or a synced item created no later than the
  channel, follows it.
\<close>

theorem getInsertIndex_created_at:
  assumes "isSaved ch"
  shows "getInsertIndex ''created_at'' ch data' = int (firstIndex (createdAtStop ch) data') \<and>
    firstIndex (createdAtStop ch) data' \<le> length data' \<and>
    (\<forall>j < firstIndex (createdAtStop ch) data'.
       unsynced (data' ! j) \<or> createdAt ch < createdAt (data' ! j)) \<and>
    (firstIndex (createdAtStop ch) data' < length data' \<longrightarrow>
       \<not> unsynced (data' ! firstIndex (createdAtStop ch) data') \<and>
       createdAt (data' ! firstIndex (createdAtStop ch) data') \<le> createdAt ch) \<and>
    (data' \<noteq> [] \<and> unsynced (hd data') \<longrightarrow> 1 \<le> getInsertIndex ''created_at'' ch data') \<and>
    (\<forall>n rest. data' = n # rest \<and> syncState n = NEW \<and>
       (case rest of [] \<Rightarrow> True | x # _ \<Rightarrow> createdAtStop ch x) \<longrightarrow>
       getInsertIndex ''created_at'' ch data' = 1)"
proof -
  let ?k = "firstIndex (createdAtStop ch) data'"
  have eq: "getInsertIndex ''created_at'' ch data' = int ?k"
    using assms by (simp add: getInsertIndex_def createdAtScan_firstIndex)
  have before: "\<forall>j < ?k. unsynced (data' ! j) \<or> createdAt ch < createdAt (data' ! j)"
  proof (intro allI impI)
    fix j assume "j < ?k"
    then have "\<not> createdAtStop ch (data' ! j)" by (rule firstIndex_before)
    then show "unsynced (data' ! j) \<or> createdAt ch < createdAt (data' ! j)"
      by (auto simp: createdAtStop_def)
  qed
  have at: "?k < length data' \<longrightarrow>
       \<not> unsynced (data' ! ?k) \<and> createdAt (data' ! ?k) \<le> createdAt ch"
    using firstIndex_at [of "createdAtStop ch" data'] by (simp add: createdAtStop_def)
  have front: "data' \<noteq> [] \<and> unsynced (hd data') \<longrightarrow> 1 \<le> getInsertIndex ''created_at'' ch data'"
    unfolding eq by (cases data') (auto simp: firstIndex_Cons createdAtStop_def)
  have scen: "\<forall>n rest. data' = n # rest \<and> syncState n = NEW \<and>
       (case rest of [] \<Rightarrow> True | x # _ \<Rightarrow> createdAtStop ch x) \<longrightarrow>
       getInsertIndex ''created_at'' ch data' = 1"
    unfolding eq
    by (auto simp: firstIndex_Cons firstIndex_Nil createdAtStop_def unsynced_def
             split: list.splits)
  from eq firstIndex_le [of "createdAtStop ch" data'] before at front scen
  show ?thesis by blast
qed

theorem getInsertIndex_created_at_witness:
  "isSaved (mk ''c'' SYNCED 30 None) \<and>
   getInsertIndex ''created_at'' (mk ''c'' SYNCED 30 None)
     [mk ''n'' NEW 10 None, mk ''s'' SYNCED 20 None] = 1 \<and>
   getInsertIndex ''created_at'' (mk ''c'' SYNCED 30 None)
     [mk ''n'' NEW 10 None, mk ''s'' SYNCED 20 None] \<noteq> 0"
  using getInsertIndex_created_at
    [of "mk ''c'' SYNCED 30 None" "[mk ''n'' NEW 10 None, mk ''s'' SYNCED 20 None]"]
  by (simp add: mk_def createdAtStop_def unsynced_def)

text \<open>
  C1, as amended. Sorting by recency, the scan of a saved channel ends with \<open>index\<close> at the
  first other item, neither NEW nor SAVING, whose derived key is not later than the
  channel's (or at the length of the array), and with \<open>oldIndex\<close> at the last position
  before \<open>index\<close> of an item with the channel's ID, or \<open>-1\<close>. The result is \<open>index\<close> when
  \<open>oldIndex\<close> is \<open>-1\<close> or greater than \<open>index\<close>, and \<open>index - 1\<close> otherwise; \<open>oldIndex\<close> is
  always less than \<open>index\<close>.
\<close>

theorem getInsertIndex_recency:
  assumes "isSaved ch" and "sf \<noteq> ''created_at''"
  shows "(let index = int (firstIndex (recencyStop ch) data');
              oldIndex = lastPos (\<lambda>item. id' item = id' ch)
                           (take (firstIndex (recencyStop ch) data') data')
          in recencyScan ch (derivedKey ch) data' 0 (- 1) = (index, oldIndex) \<and>
             oldIndex < index \<and>
             (oldIndex = - 1) = (\<forall>j < firstIndex (recencyStop ch) data'. id' (data' ! j) \<noteq> id' ch) \<and>
             getInsertIndex sf ch data' =
               (if oldIndex = - 1 \<or> oldIndex > index then index else index - 1))"
proof -
  let ?k = "firstIndex (recencyStop ch) data'"
  let ?r = "lastPos (\<lambda>item. id' item = id' ch) (take ?k data')"
  have scan: "recencyScan ch (derivedKey ch) data' 0 (- 1) = (int ?k, ?r)"
    by (simp add: recencyScan_spec Let_def)
  have lt: "?r < int ?k" by (rule lastPos_take_lt)
  have k: "?k \<le> length data'" by (rule firstIndex_le)
  have none: "(?r = - 1) = (\<forall>j < ?k. id' (data' ! j) \<noteq> id' ch)"
  proof -
    have "(?r = - 1) = (\<forall>x \<in> set (take ?k data'). id' x \<noteq> id' ch)"
      by (simp add: lastPos_none)
    also have "\<dots> = (\<forall>j < ?k. id' (data' ! j) \<noteq> id' ch)"
      using k by (simp add: all_set_conv_all_nth min_absorb2)
    finally show ?thesis .
  qed
  have res: "getInsertIndex sf ch data' =
      (if ?r = - 1 \<or> ?r > int ?k then int ?k else int ?k - 1)"
    using getInsertIndex_recency_eq [OF assms, of data'] lt by simp
  from scan lt none res show ?thesis by (simp add: Let_def)
qed

theorem getInsertIndex_recency_witness:
  "isSaved (mk ''c'' SYNCED 30 (Some 60)) \<and> ''last_message'' \<noteq> ''created_at'' \<and>
   recencyScan (mk ''c'' SYNCED 30 (Some 60)) 60
     [mk ''n'' NEW 70 None, mk ''a'' SYNCED 40 (Some 80), mk ''c'' SYNCED 30 None,
      mk ''b'' SYNCED 20 (Some 50)] 0 (- 1) = (3, 2) \<and>
   getInsertIndex ''last_message'' (mk ''c'' SYNCED 30 (Some 60))
     [mk ''n'' NEW 70 None, mk ''a'' SYNCED 40 (Some 80), mk ''c'' SYNCED 30 None,
      mk ''b'' SYNCED 20 (Some 50)] = 2"
  using getInsertIndex_recency
    [of "mk ''c'' SYNCED 30 (Some 60)" "''last_message''"
        "[mk ''n'' NEW 70 None, mk ''a'' SYNCED 40 (Some 80), mk ''c'' SYNCED 30 None,
          mk ''b'' SYNCED 20 (Some 50)]"]
  by (simp add: mk_def getInsertIndex_def)

theorem getInsertIndex_recency_counterexample:
  "\<not> (case recencyScan (mk ''c'' SYNCED 30 None) 30
              [mk ''a'' SYNCED 40 None, mk ''b'' SYNCED 20 None] 0 (- 1) of
       (index, oldIndex) \<Rightarrow>
         getInsertIndex ''last_message'' (mk ''c'' SYNCED 30 None)
           [mk ''a'' SYNCED 40 None, mk ''b'' SYNCED 20 None] =
         (if oldIndex = - 1 \<or> oldIndex > index then oldIndex else index - 1))"
  by (simp add: mk_def getInsertIndex_def)

section \<open>The handlers: properties\<close>

subsection \<open>Arrays and the index of an ID\<close>

lemma indexOfId_none: "0 \<le> k \<Longrightarrow> (indexOfId i xs k = - 1) = (i \<notin> id' ` set xs)"
  by (induction xs arbitrary: k) auto

lemma indexOfId_range:
  "indexOfId i xs k \<noteq> - 1 \<Longrightarrow> k \<le> indexOfId i xs k \<and> indexOfId i xs k < k + int (length xs)"
proof (induction xs arbitrary: k)
  case Nil
  then show ?case by simp
next
  case (Cons x xs)
  show ?case
  proof (cases "id' x = i")
    case True
    then show ?thesis by simp
  next
    case False
    with Cons.prems have "indexOfId i xs (k + 1) \<noteq> - 1" by simp
    from Cons.IH [OF this] False show ?thesis by simp
  qed
qed


lemma getIndex_none: "(getIndex i q = - 1) = (i \<notin> id' ` set (items q))"
  by (simp add: getIndex_def indexOfId_none)

lemma getIndex_range:
  "getIndex i q \<noteq> - 1 \<Longrightarrow> 0 \<le> getIndex i q \<and> getIndex i q < int (length (items q))"
  using indexOfId_range [of i "items q" 0] by (simp add: getIndex_def)


lemma splice_insert:
  "0 \<le> i \<Longrightarrow> i \<le> int (length xs) \<Longrightarrow> splice i 0 [x] xs = insertAt (nat i) x xs"
  by (simp add: splice_def insertAt_def Let_def min_absorb1)

lemma length_splice_insert: "length (splice i 0 [x] xs) = Suc (length xs)"
  by (simp add: splice_def Let_def)

lemma splice_delete:
  "0 \<le> i \<Longrightarrow> i < int (length xs) \<Longrightarrow>
   splice i 1 [] xs = take (nat i) xs @ drop (Suc (nat i)) xs"
  by (simp add: splice_def Let_def min_absorb1)

lemma slice_delete:
  "0 \<le> i \<Longrightarrow> i < int (length xs) \<Longrightarrow>
   slice 0 i xs @ sliceFrom (i + 1) xs = take (nat i) xs @ drop (Suc (nat i)) xs"
  by (simp add: slice_def sliceFrom_def relIndex_def Let_def min_absorb1 nat_add_distrib)

lemma length_delete:
  "k < length xs \<Longrightarrow> length (take k xs @ drop (Suc k) xs) = length xs - 1"
  by simp

lemma id'_getData: "id' (getData dt ch) = id' ch"
  by (simp add: getData_def toObject_def)

subsection \<open>Fetching and appending\<close>

text \<open>
  C9. A fetch whose request equals the request that is firing makes no request and leaves
  \<open>isFiring\<close> and the firing request as they are; any other fetch makes exactly one
  request, for the new URL, and records it as the firing one.
\<close>

theorem fetchData_firing:
  "(let q' = ChannelsQuery_fetchData pageSize q;
        newRequest = ChannelsQuery_newRequest pageSize q
    in if newRequest = firingRequest q
       then xhrCalls q' = xhrCalls q \<and> isFiring q' = isFiring q \<and>
            firingRequest q' = firingRequest q
       else xhrCalls q' = xhrCalls q @
              [\<lparr>telemetry = ''channel_query_time'', url = newRequest,
                method' = ''GET'', sync = False\<rparr>] \<and>
            isFiring q' \<and> firingRequest q' = newRequest) \<and>
   (let q' = IdentitiesQuery_fetchData pageSize q;
        newRequest = IdentitiesQuery_newRequest pageSize q
    in if newRequest = firingRequest q
       then xhrCalls q' = xhrCalls q \<and> isFiring q' = isFiring q \<and>
            firingRequest q' = firingRequest q
       else xhrCalls q' = xhrCalls q @
              [\<lparr>telemetry = ''identity_query_time'', url = newRequest,
                method' = ''GET'', sync = False\<rparr>] \<and>
            isFiring q' \<and> firingRequest q' = newRequest)"
  by (simp add: ChannelsQuery_fetchData_def ChannelsQuery_newRequest_def
        IdentitiesQuery_fetchData_def IdentitiesQuery_newRequest_def Let_def)

theorem fetchData_firing_witness:
  "ChannelsQuery_newRequest 50
     (newQuery InstanceDataType getSortField []
        \<lparr>nextServerFromId := ''abc'', firingRequest := ''channels?page_size=50&from_id=abc''\<rparr>) =
   ''channels?page_size=50&from_id=abc'' \<and>
   xhrCalls (ChannelsQuery_fetchData 50
     (newQuery InstanceDataType getSortField []
        \<lparr>nextServerFromId := ''abc'', firingRequest := ''channels?page_size=50&from_id=abc''\<rparr>)) = [] \<and>
   xhrCalls (ChannelsQuery_fetchData 50 (newQuery InstanceDataType getSortField [])) =
     [\<lparr>telemetry = ''channel_query_time'', url = ''channels?page_size=50'',
       method' = ''GET'', sync = False\<rparr>]"
  using fetchData_firing [of 50 "newQuery InstanceDataType getSortField []
        \<lparr>nextServerFromId := ''abc'', firingRequest := ''channels?page_size=50&from_id=abc''\<rparr>"]
    fetchData_firing [of 50 "newQuery InstanceDataType getSortField []"]
  by (simp add: ChannelsQuery_newRequest_def ChannelsQuery_fetchData_def newQuery_def
        natToString.simps Let_def)



subsection \<open>The add event\<close>

lemma mset_insertAt: "mset (insertAt k x xs) = add_mset x (mset xs)"
proof -
  have "mset (take k xs) + mset (drop k xs) = mset (take k xs @ drop k xs)"
    by (simp only: mset_append)
  also have "\<dots> = mset xs"
    by (simp only: append_take_drop_id)
  finally show ?thesis
    by (simp add: insertAt_def)
qed

lemma length_insertAt: "length (insertAt k x xs) = Suc (length xs)"
  by (simp add: insertAt_def)

lemma mset_insertAll:
  "mset (fst (insertAll sf dt list' xs)) = mset xs + mset (map (getData dt) list')"
  by (induction list' arbitrary: xs) (simp_all add: Let_def mset_insertAt)

lemma map_id'_getData: "map id' (map (getData dt) xs) = map id' xs"
  by (simp add: id'_getData)

lemma mset_ids_insertAll:
  "mset (map id' (fst (insertAll sf dt list' xs))) = mset (map id' xs) + mset (map id' list')"
proof -
  have "mset (map id' (fst (insertAll sf dt list' xs))) =
      image_mset id' (mset xs + mset (map (getData dt) list'))"
    by (simp only: mset_map mset_insertAll)
  also have "\<dots> = mset (map id' xs) + mset (map id' (map (getData dt) list'))"
    by (simp only: mset_map image_mset_union)
  finally show ?thesis by (simp only: map_id'_getData)
qed

lemma length_insertAll: "length (fst (insertAll sf dt list' xs)) = length xs + length list'"
  by (induction list' arbitrary: xs) (simp_all add: Let_def length_insertAt)

lemma addChannel_fields:
  "dataType (addChannel r ch q) = dataType q"
  "sortField (addChannel r ch q) = sortField q"
  "totalSize (addChannel r ch q) = totalSize q + 1"
  "triggered (addChannel r ch q) =
     triggered q @ [Insert (getInsertIndex (sortField q) ch (arrays q r)) (getData (dataType q) ch)]"
  "arrays (addChannel r ch q) r =
     splice (getInsertIndex (sortField q) ch (arrays q r)) 0 [getData (dataType q) ch] (arrays q r)"
  by (simp_all add: addChannel_def Let_def writeArray_def assignNewArray_def triggerChange_def)

lemma addChannel_data:
  "data (addChannel r ch q) = (if dataType q = ObjectDataType then nextRef q else data q)"
  "nextRef (addChannel r ch q) =
     (if dataType q = ObjectDataType then Suc (nextRef q) else nextRef q)"
  by (simp_all add: addChannel_def Let_def writeArray_def assignNewArray_def triggerChange_def)

lemma addChannel_items:
  assumes "dataType q = InstanceDataType \<longrightarrow> data q = r"
  shows "items (addChannel r ch q) = arrays (addChannel r ch q) r"
proof (cases "dataType q")
  case InstanceDataType
  with assms show ?thesis by (simp add: items_def addChannel_data)
next
  case ObjectDataType
  then show ?thesis
    by (simp add: items_def addChannel_def Let_def writeArray_def assignNewArray_def
          triggerChange_def)
qed

lemma addChannel_insertAt:
  "arrays (addChannel r ch q) r =
     insertAt (nat (getInsertIndex (sortField q) ch (arrays q r))) (getData (dataType q) ch)
       (arrays q r)"
  using getInsertIndex_range [of "sortField q" ch "arrays q r"]
  by (simp add: addChannel_fields splice_insert)

lemma fold_addChannel:
  assumes "dataType q = InstanceDataType \<longrightarrow> data q = r" and "items q = arrays q r"
  shows "items (fold (addChannel r) list' q) =
           fst (insertAll (sortField q) (dataType q) list' (items q)) \<and>
         triggered (fold (addChannel r) list' q) =
           triggered q @ snd (insertAll (sortField q) (dataType q) list' (items q)) \<and>
         totalSize (fold (addChannel r) list' q) = totalSize q + int (length list') \<and>
         dataType (fold (addChannel r) list' q) = dataType q \<and>
         sortField (fold (addChannel r) list' q) = sortField q"
  using assms
proof (induction list' arbitrary: q)
  case Nil
  then show ?case by simp
next
  case (Cons ch rest)
  let ?q = "addChannel r ch q"
  have inst: "dataType ?q = InstanceDataType \<longrightarrow> data ?q = r"
    using Cons.prems(1) by (simp add: addChannel_fields addChannel_data)
  have its: "items ?q = arrays ?q r"
    using Cons.prems(1) by (rule addChannel_items)
  have step: "items ?q =
      insertAt (nat (getInsertIndex (sortField q) ch (items q))) (getData (dataType q) ch) (items q)"
    using its Cons.prems(2) by (simp add: addChannel_insertAt)
  from Cons.IH [OF inst its] step Cons.prems(2) show ?case
    by (simp add: addChannel_fields Let_def)
qed

lemma handleAddEvent_filter:
  "filter (\<lambda>ch. getIndex (id' ch) q = - 1) evt =
   filter (\<lambda>ch. id' ch \<notin> id' ` set (items q)) evt"
  by (simp add: getIndex_none)

lemma handleAddEvent_spec:
  "items (handleAddEvent evt q) =
     fst (insertAll (sortField q) (dataType q)
            (filter (\<lambda>ch. id' ch \<notin> id' ` set (items q)) evt) (items q)) \<and>
   triggered (handleAddEvent evt q) =
     triggered q @ snd (insertAll (sortField q) (dataType q)
            (filter (\<lambda>ch. id' ch \<notin> id' ` set (items q)) evt) (items q)) \<and>
   totalSize (handleAddEvent evt q) =
     totalSize q + int (length (filter (\<lambda>ch. id' ch \<notin> id' ` set (items q)) evt))"
proof -
  let ?list = "filter (\<lambda>ch. id' ch \<notin> id' ` set (items q)) evt"
  show ?thesis
  proof (cases "?list = []")
    case True
    then show ?thesis by (simp add: handleAddEvent_def handleAddEvent_filter)
  next
    case False
    have "handleAddEvent evt q = fold (addChannel (data q)) ?list q"
      using False by (simp add: handleAddEvent_def handleAddEvent_filter Let_def)
    moreover have "items q = arrays q (data q)" by (simp add: items_def)
    ultimately show ?thesis
      using fold_addChannel [of q "data q" ?list] by simp
  qed
qed

lemma handleAddEvent_nothing:
  "filter (\<lambda>ch. id' ch \<notin> id' ` set (items q)) evt = [] \<Longrightarrow> handleAddEvent evt q = q"
  by (simp add: handleAddEvent_def handleAddEvent_filter)

subsection \<open>The remove event\<close>

lemma removeChannel_absent:
  "getIndex (id' ch) q = - 1 \<Longrightarrow> removeChannel upd ch (q, rm) = (q, rm)"
  by (simp add: removeChannel_def)

lemma removeChannel_present:
  assumes "getIndex (id' ch) q \<noteq> - 1"
  shows "items (fst (removeChannel upd ch (q, rm))) =
           take (nat (getIndex (id' ch) q)) (items q) @
           drop (Suc (nat (getIndex (id' ch) q))) (items q) \<and>
         snd (removeChannel upd ch (q, rm)) = rm @ [(ch, getIndex (id' ch) q)] \<and>
         totalSize (fst (removeChannel upd ch (q, rm))) = totalSize q \<and>
         triggered (fst (removeChannel upd ch (q, rm))) = triggered q \<and>
         dataType (fst (removeChannel upd ch (q, rm))) = dataType q"
proof -
  let ?i = "getIndex (id' ch) q"
  from getIndex_range [OF assms] have r: "0 \<le> ?i" "?i < int (length (items q))" by simp_all
  let ?q1 = "if id' ch = nextDBFromId q then q\<lparr>nextDBFromId := upd ?i q\<rparr> else q"
  let ?q2 = "if id' ch = nextServerFromId ?q1 then ?q1\<lparr>nextServerFromId := upd ?i ?q1\<rparr> else ?q1"
  have q2: "items ?q2 = items q" "totalSize ?q2 = totalSize q" "triggered ?q2 = triggered q"
    "dataType ?q2 = dataType q"
    by (simp_all add: items_def)
  have del: "slice 0 ?i (items ?q2) @ sliceFrom (?i + 1) (items ?q2) =
      take (nat ?i) (items q) @ drop (Suc (nat ?i)) (items q)"
    "splice ?i 1 [] (items ?q2) = take (nat ?i) (items q) @ drop (Suc (nat ?i)) (items q)"
    using r by (simp_all only: q2 slice_delete splice_delete)
  have unf: "removeChannel upd ch (q, rm) =
      (if dataType ?q2 = ObjectDataType
       then assignNewArray (slice 0 ?i (items ?q2) @ sliceFrom (?i + 1) (items ?q2)) ?q2
       else writeArray (data ?q2) (splice ?i 1 [] (items ?q2)) ?q2,
       rm @ [(ch, ?i)])"
    using assms by (simp add: removeChannel_def Let_def)
  show ?thesis
    unfolding unf del using q2
    by (simp add: items_def assignNewArray_def writeArray_def)
qed

lemma fold_removeChannel:
  "int (length (items (fst (fold (removeChannel upd) evt (q, rm))))) +
     int (length (snd (fold (removeChannel upd) evt (q, rm)))) =
     int (length (items q)) + int (length rm) \<and>
   totalSize (fst (fold (removeChannel upd) evt (q, rm))) = totalSize q \<and>
   triggered (fst (fold (removeChannel upd) evt (q, rm))) = triggered q \<and>
   dataType (fst (fold (removeChannel upd) evt (q, rm))) = dataType q"
proof (induction evt arbitrary: q rm)
  case Nil
  then show ?case by simp
next
  case (Cons ch rest)
  show ?case
  proof (cases "getIndex (id' ch) q = - 1")
    case True
    with Cons.IH [of q rm] show ?thesis by (simp add: removeChannel_absent)
  next
    case False
    obtain q' rm' where s: "removeChannel upd ch (q, rm) = (q', rm')"
      by (cases "removeChannel upd ch (q, rm)")
    from getIndex_range [OF False]
    have r: "nat (getIndex (id' ch) q) < length (items q)" by linarith
    from removeChannel_present [OF False, of upd rm] s
    have props: "items q' = take (nat (getIndex (id' ch) q)) (items q) @
          drop (Suc (nat (getIndex (id' ch) q))) (items q)"
      "rm' = rm @ [(ch, getIndex (id' ch) q)]" "totalSize q' = totalSize q"
      "triggered q' = triggered q" "dataType q' = dataType q"
      by simp_all
    have len: "int (length (items q')) + int (length rm') =
        int (length (items q)) + int (length rm)"
      using r by (simp add: props(1,2))
    have "fold (removeChannel upd) (ch # rest) (q, rm) = fold (removeChannel upd) rest (q', rm')"
      by (simp add: s)
    with Cons.IH [of q' rm'] len props(3,4,5) show ?thesis by simp
  qed
qed


lemma fold_triggerChange:
  "arrays (fold (\<lambda>x. triggerChange (f x)) xs q) = arrays q \<and>
   totalSize (fold (\<lambda>x. triggerChange (f x)) xs q) = totalSize q \<and>
   data (fold (\<lambda>x. triggerChange (f x)) xs q) = data q \<and>
   nextRef (fold (\<lambda>x. triggerChange (f x)) xs q) = nextRef q \<and>
   triggered (fold (\<lambda>x. triggerChange (f x)) xs q) = triggered q @ map f xs"
  by (induction xs arbitrary: q) (simp_all add: triggerChange_def)

lemma items_fold_triggerChange: "items (fold (\<lambda>x. triggerChange (f x)) xs q) = items q"
  by (simp add: items_def fold_triggerChange)

lemma handleRemoveEvent_unfold:
  "handleRemoveEvent upd evt q =
     fold (\<lambda>x. triggerChange
                 (Remove (snd x)
                    (getData (dataType (fst (fold (removeChannel upd) evt (q, [])))) (fst x))))
       (snd (fold (removeChannel upd) evt (q, [])))
       ((fst (fold (removeChannel upd) evt (q, [])))
          \<lparr>totalSize := totalSize (fst (fold (removeChannel upd) evt (q, []))) -
             int (length (snd (fold (removeChannel upd) evt (q, []))))\<rparr>)"
  by (simp add: handleRemoveEvent_def Let_def split_beta)

lemma handleRemoveEvent_sizes:
  "items (handleRemoveEvent upd evt q) = items (fst (fold (removeChannel upd) evt (q, []))) \<and>
   totalSize (handleRemoveEvent upd evt q) =
     totalSize q - int (length (snd (fold (removeChannel upd) evt (q, [])))) \<and>
   int (length (items (handleRemoveEvent upd evt q))) =
     int (length (items q)) - int (length (snd (fold (removeChannel upd) evt (q, []))))"
proof -
  let ?s = "fold (removeChannel upd) evt (q, [])"
  have its: "items (handleRemoveEvent upd evt q) = items (fst ?s)"
    unfolding handleRemoveEvent_unfold by (simp add: items_fold_triggerChange) (simp add: items_def)
  have ts: "totalSize (handleRemoveEvent upd evt q) = totalSize (fst ?s) - int (length (snd ?s))"
    unfolding handleRemoveEvent_unfold by (simp add: fold_triggerChange)
  from its ts fold_removeChannel [of upd evt q "[]"] show ?thesis by simp
qed


subsection \<open>Duplicates and the size\<close>

text \<open>
  C4, as amended. When no ID occurs twice in the result set, and none occurs twice in the
  event, the add event leaves out every entity whose ID is in the result set and handles
  the others in order: each is spliced in once at its insert index, with one insert delta
  of that index and the projected entity, and \<open>totalSize\<close> grows by one. When nothing is
  left the query does not change. Afterwards the IDs of the result set are those it had
  and those of the inserted entities, each once.
\<close>

theorem handleAddEvent_no_duplicates:
  assumes "distinct (map id' (items q))" and "distinct (map id' evt)"
  shows "(let list' = filter (\<lambda>ch. id' ch \<notin> id' ` set (items q)) evt;
              q' = handleAddEvent evt q;
              r = insertAll (sortField q) (dataType q) list' (items q)
          in items q' = fst r \<and>
             triggered q' = triggered q @ snd r \<and>
             totalSize q' = totalSize q + int (length list') \<and>
             (list' = [] \<longrightarrow> q' = q) \<and>
             mset (map id' (items q')) = mset (map id' (items q)) + mset (map id' list') \<and>
             distinct (map id' (items q')))"
proof -
  let ?list = "filter (\<lambda>ch. id' ch \<notin> id' ` set (items q)) evt"
  let ?q = "handleAddEvent evt q"
  let ?r = "insertAll (sortField q) (dataType q) ?list (items q)"
  note spec = handleAddEvent_spec [of evt q]
  have ms: "mset (map id' (items ?q)) = mset (map id' (items q)) + mset (map id' ?list)"
    using spec by (simp only: mset_ids_insertAll)
  have "distinct (map id' ?list)"
    using assms(2) by (simp add: distinct_map_filter)
  moreover have "set (map id' (items q)) \<inter> set (map id' ?list) = {}"
  proof -
    have "i \<notin> set (map id' (items q))" if "i \<in> set (map id' ?list)" for i
    proof -
      from that obtain ch where "ch \<in> set ?list" and "id' ch = i" by auto
      then have "i \<notin> id' ` set (items q)" by auto
      then show ?thesis by simp
    qed
    then show ?thesis by blast
  qed
  ultimately have "distinct (map id' (items q) @ map id' ?list)"
    using assms(1) by simp
  moreover have "mset (map id' (items ?q)) = mset (map id' (items q) @ map id' ?list)"
    using ms by simp
  ultimately have dist: "distinct (map id' (items ?q))"
    using mset_eq_imp_distinct_iff by blast
  have noop: "?list = [] \<longrightarrow> ?q = q"
    using handleAddEvent_nothing [of q evt] by blast
  show ?thesis
    unfolding Let_def using spec ms dist noop by blast
qed

theorem handleAddEvent_no_duplicates_witness:
  "distinct (map id' (items (newQuery InstanceDataType getSortField
      [mk ''a'' SYNCED 40 None, mk ''b'' SYNCED 20 None]))) \<and>
   distinct (map id' [mk ''b'' SYNCED 20 None, mk ''c'' SYNCED 30 None]) \<and>
   items (handleAddEvent [mk ''b'' SYNCED 20 None, mk ''c'' SYNCED 30 None]
     (newQuery InstanceDataType getSortField
        [mk ''a'' SYNCED 40 None, mk ''b'' SYNCED 20 None])) =
     [mk ''a'' SYNCED 40 None, mk ''c'' SYNCED 30 None, mk ''b'' SYNCED 20 None] \<and>
   triggered (handleAddEvent [mk ''b'' SYNCED 20 None, mk ''c'' SYNCED 30 None]
     (newQuery InstanceDataType getSortField
        [mk ''a'' SYNCED 40 None, mk ''b'' SYNCED 20 None])) =
     [Insert 1 (mk ''c'' SYNCED 30 None)] \<and>
   totalSize (handleAddEvent [mk ''b'' SYNCED 20 None, mk ''c'' SYNCED 30 None]
     (newQuery InstanceDataType getSortField
        [mk ''a'' SYNCED 40 None, mk ''b'' SYNCED 20 None])) = 3"
proof -
  let ?q = "newQuery InstanceDataType getSortField
      [mk ''a'' SYNCED 40 None, mk ''b'' SYNCED 20 None]"
  let ?evt = "[mk ''b'' SYNCED 20 None, mk ''c'' SYNCED 30 None]"
  have h1: "distinct (map id' (items ?q))" by code_simp
  have h2: "distinct (map id' ?evt)" by code_simp
  have ev: "items (handleAddEvent ?evt ?q) =
        [mk ''a'' SYNCED 40 None, mk ''c'' SYNCED 30 None, mk ''b'' SYNCED 20 None]"
    "triggered (handleAddEvent ?evt ?q) = [Insert 1 (mk ''c'' SYNCED 30 None)]"
    "totalSize (handleAddEvent ?evt ?q) = 3"
    by code_simp+
  from handleAddEvent_no_duplicates [OF h1 h2, unfolded Let_def] h1 h2 ev
  show ?thesis by blast
qed

theorem handleAddEvent_duplicate_counterexample:
  "distinct (map id' (items (newQuery InstanceDataType getSortField []))) \<and>
   items (handleAddEvent [mk ''c'' SYNCED 30 None, mk ''c'' SYNCED 30 None]
     (newQuery InstanceDataType getSortField [])) =
     [mk ''c'' SYNCED 30 None, mk ''c'' SYNCED 30 None] \<and>
   \<not> distinct (map id' (items
     (handleAddEvent [mk ''c'' SYNCED 30 None, mk ''c'' SYNCED 30 None]
        (newQuery InstanceDataType getSortField []))))"
  by code_simp

text \<open>
  C5. When \<open>totalSize\<close> is the length of the array before an add event or a remove event,
  it is the length of the array after it: an add event raises both by the number of
  entities it inserts, a remove event lowers both by the number of entities it removes.
\<close>

theorem totalSize_consistent:
  assumes "totalSize q = int (length (items q))"
  shows "totalSize (handleAddEvent evt q) = int (length (items (handleAddEvent evt q))) \<and>
    totalSize (handleAddEvent evt q) =
      totalSize q + int (length (filter (\<lambda>ch. getIndex (id' ch) q = - 1) evt)) \<and>
    totalSize (handleRemoveEvent upd evt q) =
      int (length (items (handleRemoveEvent upd evt q))) \<and>
    totalSize (handleRemoveEvent upd evt q) =
      totalSize q - int (length (snd (fold (removeChannel upd) evt (q, []))))"
proof -
  have add: "int (length (items (handleAddEvent evt q))) =
      int (length (items q)) + int (length (filter (\<lambda>ch. getIndex (id' ch) q = - 1) evt))"
    using handleAddEvent_spec [of evt q]
    by (simp add: length_insertAll handleAddEvent_filter)
  have addt: "totalSize (handleAddEvent evt q) =
      totalSize q + int (length (filter (\<lambda>ch. getIndex (id' ch) q = - 1) evt))"
    using handleAddEvent_spec [of evt q] by (simp add: handleAddEvent_filter)
  from handleRemoveEvent_sizes [of upd evt q]
  have rmt: "totalSize (handleRemoveEvent upd evt q) =
      totalSize q - int (length (snd (fold (removeChannel upd) evt (q, []))))"
    and rml: "int (length (items (handleRemoveEvent upd evt q))) =
      int (length (items q)) - int (length (snd (fold (removeChannel upd) evt (q, []))))"
    by blast+
  from add addt rmt rml assms show ?thesis by simp
qed

theorem totalSize_consistent_witness:
  "totalSize (newQuery ObjectDataType getSortField
      [mk ''a'' SYNCED 40 None, mk ''b'' SYNCED 20 None]) =
     int (length (items (newQuery ObjectDataType getSortField
      [mk ''a'' SYNCED 40 None, mk ''b'' SYNCED 20 None]))) \<and>
   totalSize (handleAddEvent [mk ''b'' SYNCED 20 None, mk ''c'' SYNCED 30 None]
     (newQuery ObjectDataType getSortField
        [mk ''a'' SYNCED 40 None, mk ''b'' SYNCED 20 None])) = 3 \<and>
   totalSize (handleAddEvent [mk ''b'' SYNCED 20 None, mk ''c'' SYNCED 30 None]
     (newQuery ObjectDataType getSortField
        [mk ''a'' SYNCED 40 None, mk ''b'' SYNCED 20 None])) =
     int (length (items (handleAddEvent [mk ''b'' SYNCED 20 None, mk ''c'' SYNCED 30 None]
       (newQuery ObjectDataType getSortField
          [mk ''a'' SYNCED 40 None, mk ''b'' SYNCED 20 None])))) \<and>
   totalSize (handleRemoveEvent (\<lambda>i q. [])
     [mk ''b'' SYNCED 20 None, mk ''c'' SYNCED 30 None]
     (newQuery ObjectDataType getSortField
        [mk ''a'' SYNCED 40 None, mk ''b'' SYNCED 20 None])) = 1 \<and>
   totalSize (handleRemoveEvent (\<lambda>i q. [])
     [mk ''b'' SYNCED 20 None, mk ''c'' SYNCED 30 None]
     (newQuery ObjectDataType getSortField
        [mk ''a'' SYNCED 40 None, mk ''b'' SYNCED 20 None])) =
     int (length (items (handleRemoveEvent (\<lambda>i q. [])
       [mk ''b'' SYNCED 20 None, mk ''c'' SYNCED 30 None]
       (newQuery ObjectDataType getSortField
          [mk ''a'' SYNCED 40 None, mk ''b'' SYNCED 20 None]))))"
proof -
  let ?q = "newQuery ObjectDataType getSortField
      [mk ''a'' SYNCED 40 None, mk ''b'' SYNCED 20 None]"
  let ?evt = "[mk ''b'' SYNCED 20 None, mk ''c'' SYNCED 30 None]"
  have h: "totalSize ?q = int (length (items ?q))" by code_simp
  have ev: "totalSize (handleAddEvent ?evt ?q) = 3"
    "totalSize (handleRemoveEvent (\<lambda>i q. []) ?evt ?q) = 1"
    by code_simp+
  from totalSize_consistent [OF h, of ?evt "\<lambda>i q. []"] h ev show ?thesis by blast
qed

subsection \<open>The change event\<close>



lemma handleChangeEvent_index:
  "(if dataType q = ObjectDataType
    then (let idChanges = getChangesFor ''id'' evt
          in if idChanges \<noteq> [] then getIndex (oldValue (hd idChanges)) q
             else getIndex (id' (target evt)) q)
    else getIndex (id' (target evt)) q) = getIndex (lookupId evt q) q"
  by (simp add: lookupId_def Let_def)

lemma handleChangeEvent_absent:
  "getIndex (lookupId evt q) q = - 1 \<Longrightarrow> handleChangeEvent evt q = q"
  unfolding handleChangeEvent_def Let_def handleChangeEvent_index [unfolded Let_def]
  by simp

lemma handleChangeEvent_object_plain:
  assumes "getIndex (lookupId evt q) q \<noteq> - 1" and "dataType q = ObjectDataType"
    and "\<not> (hasProperty ''lastMessage'' evt \<and> sortField q = ''last_message'')"
  shows "handleChangeEvent evt q =
    triggerChange (Property (getData ObjectDataType (target evt)) (changes evt))
      (assignNewArray
         (slice 0 (getIndex (lookupId evt q) q) (items q) @ [toObject (target evt)] @
          sliceFrom (getIndex (lookupId evt q) q + 1) (items q)) q)"
  unfolding handleChangeEvent_def Let_def handleChangeEvent_index [unfolded Let_def]
  using assms by (cases "hasProperty ''lastMessage'' evt") (simp_all add: assignNewArray_def)

lemma handleChangeEvent_object_reorder:
  assumes "getIndex (lookupId evt q) q \<noteq> - 1" and "dataType q = ObjectDataType"
    and "hasProperty ''lastMessage'' evt \<and> sortField q = ''last_message''"
  shows "handleChangeEvent evt q =
    (let index = getIndex (lookupId evt q) q;
         n = getInsertIndex (sortField q) (target evt) (items q);
         ys = splice n 0 [getData ObjectDataType (target evt)] (splice index 1 [] (items q));
         q1 = assignNewArray ys (writeArray (data q) ys q);
         q2 = triggerChange (Property (getData ObjectDataType (target evt)) (changes evt)) q1
     in if n \<noteq> index
        then triggerChange (Move (getData ObjectDataType (target evt)) index n) q2
        else q2)"
  unfolding handleChangeEvent_def Let_def handleChangeEvent_index [unfolded Let_def]
  using assms
  by (simp add: assignNewArray_def writeArray_def items_def triggerChange_def)

lemma handleChangeEvent_instance:
  assumes "getIndex (lookupId evt q) q \<noteq> - 1" and "dataType q = InstanceDataType"
  shows "handleChangeEvent evt q =
    (let index = getIndex (lookupId evt q) q;
         n = getInsertIndex (sortField q) (target evt) (items q);
         reorder = (hasProperty ''lastMessage'' evt \<and> sortField q = ''last_message'');
         q1 = (if reorder \<and> n \<noteq> index
               then writeArray (data q)
                      (splice n 0 [target evt] (splice index 1 [] (items q))) q
               else q);
         q2 = triggerChange (Property (target evt) (changes evt)) q1
     in if reorder \<and> n \<noteq> index then triggerChange (Move (target evt) index n) q2 else q2)"
  unfolding handleChangeEvent_def Let_def handleChangeEvent_index [unfolded Let_def]
  using assms
  by (cases "hasProperty ''lastMessage'' evt"; cases "sortField q = ''last_message''";
      cases "getInsertIndex (sortField q) (target evt) (items q) = getIndex (lookupId evt q) q")
     (simp_all add: writeArray_def items_def triggerChange_def getData_def)


subsection \<open>Deltas of the change event, and events for absent entities\<close>







subsection \<open>Which array the handlers write\<close>

lemma fold_addChannel_instance:
  "dataType q = InstanceDataType \<Longrightarrow>
   data (fold (addChannel r) list' q) = data q \<and>
   nextRef (fold (addChannel r) list' q) = nextRef q"
  by (induction list' arbitrary: q) (simp_all add: addChannel_data addChannel_fields)

lemma fold_addChannel_object_later:
  "dataType q = ObjectDataType \<Longrightarrow> n \<le> nextRef q \<Longrightarrow> n \<le> data q \<Longrightarrow>
   n \<le> data (fold (addChannel r) list' q)"
  by (induction list' arbitrary: q) (simp_all add: addChannel_data addChannel_fields)

lemma fold_addChannel_object:
  assumes "dataType q = ObjectDataType" and "list' \<noteq> []"
  shows "nextRef q \<le> data (fold (addChannel r) list' q)"
proof -
  from assms(2) obtain ch rest where l: "list' = ch # rest" by (cases list') auto
  have "nextRef q \<le> data (fold (addChannel r) rest (addChannel r ch q))"
    using assms(1)
    by (intro fold_addChannel_object_later) (simp_all add: addChannel_data addChannel_fields)
  then show ?thesis by (simp add: l)
qed

lemma handleAddEvent_ref:
  "(dataType q = InstanceDataType \<longrightarrow>
      data (handleAddEvent evt q) = data q \<and> nextRef (handleAddEvent evt q) = nextRef q) \<and>
   (dataType q = ObjectDataType \<longrightarrow>
      handleAddEvent evt q = q \<or> nextRef q \<le> data (handleAddEvent evt q))"
proof (cases "filter (\<lambda>ch. getIndex (id' ch) q = - 1) evt = []")
  case True
  then show ?thesis by (simp add: handleAddEvent_def)
next
  case False
  then have "handleAddEvent evt q =
      fold (addChannel (data q)) (filter (\<lambda>ch. getIndex (id' ch) q = - 1) evt) q"
    by (simp add: handleAddEvent_def Let_def)
  with False fold_addChannel_instance [of q "data q"] fold_addChannel_object [of q _ "data q"]
  show ?thesis by auto
qed

lemma removeChannel_ref:
  assumes "getIndex (id' ch) q \<noteq> - 1"
  shows "dataType (fst (removeChannel upd ch (q, rm))) = dataType q \<and>
    snd (removeChannel upd ch (q, rm)) \<noteq> [] \<and>
    (dataType q = InstanceDataType \<longrightarrow>
       data (fst (removeChannel upd ch (q, rm))) = data q \<and>
       nextRef (fst (removeChannel upd ch (q, rm))) = nextRef q) \<and>
    (dataType q = ObjectDataType \<longrightarrow>
       data (fst (removeChannel upd ch (q, rm))) = nextRef q \<and>
       nextRef (fst (removeChannel upd ch (q, rm))) = Suc (nextRef q))"
  using assms
  by (simp add: removeChannel_def Let_def assignNewArray_def writeArray_def)

lemma fold_removeChannel_instance:
  "dataType q = InstanceDataType \<Longrightarrow>
   data (fst (fold (removeChannel upd) evt (q, rm))) = data q \<and>
   nextRef (fst (fold (removeChannel upd) evt (q, rm))) = nextRef q"
proof (induction evt arbitrary: q rm)
  case Nil
  then show ?case by simp
next
  case (Cons ch rest)
  show ?case
  proof (cases "getIndex (id' ch) q = - 1")
    case True
    with Cons.IH [OF Cons.prems] show ?thesis by (simp add: removeChannel_absent)
  next
    case False
    obtain q' rm' where s: "removeChannel upd ch (q, rm) = (q', rm')"
      by (cases "removeChannel upd ch (q, rm)")
    from removeChannel_ref [OF False, of upd rm] s Cons.prems
    have props: "dataType q' = InstanceDataType" "data q' = data q" "nextRef q' = nextRef q"
      by simp_all
    from Cons.IH [OF props(1), of rm'] props(2,3) show ?thesis by (simp add: s)
  qed
qed

lemma fold_removeChannel_object_later:
  "dataType q = ObjectDataType \<Longrightarrow> n \<le> nextRef q \<Longrightarrow> n \<le> data q \<Longrightarrow>
   n \<le> data (fst (fold (removeChannel upd) evt (q, rm)))"
proof (induction evt arbitrary: q rm)
  case Nil
  then show ?case by simp
next
  case (Cons ch rest)
  show ?case
  proof (cases "getIndex (id' ch) q = - 1")
    case True
    with Cons.IH [OF Cons.prems] show ?thesis by (simp add: removeChannel_absent)
  next
    case False
    obtain q' rm' where s: "removeChannel upd ch (q, rm) = (q', rm')"
      by (cases "removeChannel upd ch (q, rm)")
    from removeChannel_ref [OF False, of upd rm] s Cons.prems
    have props: "dataType q' = ObjectDataType" "n \<le> nextRef q'" "n \<le> data q'"
      by simp_all
    from Cons.IH [OF props, of rm'] show ?thesis by (simp add: s)
  qed
qed

lemma fold_removeChannel_object:
  "dataType q = ObjectDataType \<Longrightarrow>
   fold (removeChannel upd) evt (q, rm) = (q, rm) \<or>
   nextRef q \<le> data (fst (fold (removeChannel upd) evt (q, rm)))"
proof (induction evt arbitrary: q rm)
  case Nil
  then show ?case by simp
next
  case (Cons ch rest)
  show ?case
  proof (cases "getIndex (id' ch) q = - 1")
    case True
    with Cons.IH [OF Cons.prems] show ?thesis by (simp add: removeChannel_absent)
  next
    case False
    obtain q' rm' where s: "removeChannel upd ch (q, rm) = (q', rm')"
      by (cases "removeChannel upd ch (q, rm)")
    from removeChannel_ref [OF False, of upd rm] s Cons.prems
    have props: "dataType q' = ObjectDataType" "nextRef q \<le> nextRef q'" "nextRef q \<le> data q'"
      by simp_all
    from fold_removeChannel_object_later [OF props, of upd rest rm']
    show ?thesis by (simp add: s)
  qed
qed

lemma handleRemoveEvent_ref:
  "(dataType q = InstanceDataType \<longrightarrow>
      data (handleRemoveEvent upd evt q) = data q \<and>
      nextRef (handleRemoveEvent upd evt q) = nextRef q) \<and>
   (dataType q = ObjectDataType \<longrightarrow>
      handleRemoveEvent upd evt q = q \<or> nextRef q \<le> data (handleRemoveEvent upd evt q))"
proof -
  let ?s = "fold (removeChannel upd) evt (q, [])"
  have d: "data (handleRemoveEvent upd evt q) = data (fst ?s)"
    and n: "nextRef (handleRemoveEvent upd evt q) = nextRef (fst ?s)"
    unfolding handleRemoveEvent_unfold by (simp_all add: fold_triggerChange)
  have same: "handleRemoveEvent upd evt q = q" if "?s = (q, [])"
    using that by (simp add: handleRemoveEvent_def)
  from d n same fold_removeChannel_instance [of q upd evt "[]"]
    fold_removeChannel_object [of q upd evt "[]"]
  show ?thesis by auto
qed

lemma handleChangeEvent_ref:
  "(dataType q = InstanceDataType \<longrightarrow>
      data (handleChangeEvent evt q) = data q \<and>
      nextRef (handleChangeEvent evt q) = nextRef q) \<and>
   (dataType q = ObjectDataType \<longrightarrow>
      handleChangeEvent evt q = q \<or> nextRef q \<le> data (handleChangeEvent evt q))"
proof (cases "getIndex (lookupId evt q) q = - 1")
  case True
  then show ?thesis by (simp add: handleChangeEvent_absent)
next
  case found: False
  show ?thesis
  proof (cases "dataType q")
    case InstanceDataType
    show ?thesis
      unfolding handleChangeEvent_instance [OF found InstanceDataType] Let_def
      using InstanceDataType by (simp add: triggerChange_def writeArray_def)
  next
    case ObjectDataType
    show ?thesis
    proof (cases "hasProperty ''lastMessage'' evt \<and> sortField q = ''last_message''")
      case False
      show ?thesis
        unfolding handleChangeEvent_object_plain [OF found ObjectDataType False]
        using ObjectDataType by (simp add: triggerChange_def assignNewArray_def)
    next
      case True
      show ?thesis
        unfolding handleChangeEvent_object_reorder [OF found ObjectDataType True] Let_def
        using ObjectDataType
        by (simp add: triggerChange_def assignNewArray_def writeArray_def)
    qed
  qed
qed

text \<open>
  C10. For the object type, every handler that changes the query at all (so every one
  that changes the array's content) leaves \<open>data\<close> referring to an array created during the
  event, different from the array it referred to before. For the instance type, the
  handlers create no array and \<open>data\<close> refers to the same array as before, which holds the
  new content.
\<close>

theorem data_reference:
  assumes "data q < nextRef q"
  shows "(dataType q = ObjectDataType \<longrightarrow>
      (handleAddEvent evt q \<noteq> q \<longrightarrow>
         data (handleAddEvent evt q) \<noteq> data q \<and> nextRef q \<le> data (handleAddEvent evt q)) \<and>
      (handleRemoveEvent upd evt q \<noteq> q \<longrightarrow>
         data (handleRemoveEvent upd evt q) \<noteq> data q \<and>
         nextRef q \<le> data (handleRemoveEvent upd evt q)) \<and>
      (handleChangeEvent cevt q \<noteq> q \<longrightarrow>
         data (handleChangeEvent cevt q) \<noteq> data q \<and>
         nextRef q \<le> data (handleChangeEvent cevt q))) \<and>
    (dataType q = InstanceDataType \<longrightarrow>
      data (handleAddEvent evt q) = data q \<and> nextRef (handleAddEvent evt q) = nextRef q \<and>
      data (handleRemoveEvent upd evt q) = data q \<and>
      nextRef (handleRemoveEvent upd evt q) = nextRef q \<and>
      data (handleChangeEvent cevt q) = data q \<and>
      nextRef (handleChangeEvent cevt q) = nextRef q)"
proof -
  have fresh: "r \<noteq> data q" if "nextRef q \<le> r" for r
    using that assms by simp
  from handleAddEvent_ref [of q evt] handleRemoveEvent_ref [of q upd evt]
    handleChangeEvent_ref [of q cevt] fresh
  show ?thesis by blast
qed

theorem data_reference_witness:
  "data (newQuery ObjectDataType getSortField [mk ''a'' SYNCED 40 None]) <
     nextRef (newQuery ObjectDataType getSortField [mk ''a'' SYNCED 40 None]) \<and>
   handleAddEvent [mk ''c'' SYNCED 30 None]
     (newQuery ObjectDataType getSortField [mk ''a'' SYNCED 40 None]) \<noteq>
     newQuery ObjectDataType getSortField [mk ''a'' SYNCED 40 None] \<and>
   data (handleAddEvent [mk ''c'' SYNCED 30 None]
     (newQuery ObjectDataType getSortField [mk ''a'' SYNCED 40 None])) \<noteq>
     data (newQuery ObjectDataType getSortField [mk ''a'' SYNCED 40 None]) \<and>
   data (newQuery InstanceDataType getSortField [mk ''a'' SYNCED 40 None]) <
     nextRef (newQuery InstanceDataType getSortField [mk ''a'' SYNCED 40 None]) \<and>
   items (handleAddEvent [mk ''c'' SYNCED 30 None]
     (newQuery InstanceDataType getSortField [mk ''a'' SYNCED 40 None])) =
     [mk ''a'' SYNCED 40 None, mk ''c'' SYNCED 30 None] \<and>
   data (handleAddEvent [mk ''c'' SYNCED 30 None]
     (newQuery InstanceDataType getSortField [mk ''a'' SYNCED 40 None])) =
     data (newQuery InstanceDataType getSortField [mk ''a'' SYNCED 40 None])"
proof -
  let ?qo = "newQuery ObjectDataType getSortField [mk ''a'' SYNCED 40 None]"
  let ?qi = "newQuery InstanceDataType getSortField [mk ''a'' SYNCED 40 None]"
  let ?evt = "[mk ''c'' SYNCED 30 None]"
  have ho: "data ?qo < nextRef ?qo" and hi: "data ?qi < nextRef ?qi" by code_simp+
  have to: "dataType ?qo = ObjectDataType" and ti: "dataType ?qi = InstanceDataType"
    by code_simp+
  have "items (handleAddEvent ?evt ?qo) \<noteq> items ?qo" by code_simp
  then have changed: "handleAddEvent ?evt ?qo \<noteq> ?qo" by auto
  have ev: "items (handleAddEvent ?evt ?qi) = [mk ''a'' SYNCED 40 None, mk ''c'' SYNCED 30 None]"
    by code_simp
  from data_reference [OF ho, of ?evt] data_reference [OF hi, of ?evt] ho hi to ti changed ev
  show ?thesis by blast
qed

end
